theory Spec2Isabelle
  imports Main "HOL-Library.Word" "HOL-Library.AList"
begin

section \<open>Data model of \<open>LookupTableIDAViaGraph\<close>\<close>

type_synonym move = string
type_synonym byte = "8 word"

text \<open>
  Exceptions the Python can raise inside this file: the explicit \<open>Exception\<close> of the
  constructor, \<open>NoIDASolution\<close>, and the implicit ones of indexing a \<open>bytes\<close> object or a
  list out of range, of a missing dictionary key, of \<open>struct.unpack\<close> on a short slice,
  and of the name \<open>pformat\<close>, which the module never imports.
\<close>

datatype error =
    IllegalMoveNotLegal move
  | NoIDASolution
  | IndexError
  | KeyError
  | StructError
  | NameError

text \<open>
  A prune table object: the loaded binary graph, the scratch field \<open>ida_graph_node\<close> that
  the search mutates, and the table's own encoder \<open>state_index\<close> of the cube state (an
  external collaborator, taken as a parameter).
\<close>

record prune_table =
  ida_graph :: "byte list"
  ida_graph_node :: nat
  state_index :: "string list \<Rightarrow> nat"

text \<open>The fields of \<open>self\<close> that the constructor computes from the moves and never changes.\<close>

record lookup_table =
  moves_all :: "move list"
  step_index :: "move \<rightharpoonup> nat"
  ROW_LENGTH :: nat
  steps_on_same_face_and_layer_cache :: "(move option \<times> move) \<rightharpoonup> bool"
  steps_not_on_same_face_and_layer :: "move option \<rightharpoonup> move list"

text \<open>
  The fields of \<open>self\<close> that stage the puzzle before a search. The constructor sets them
  to their defaults and the owner of the table assigns them afterwards. \<open>avoid_oll\<close>
  (set by the base class) is read only through \<open>is not None\<close>, hence a flag.
\<close>

record staging =
  recolor_positions :: "nat list"
  recolor_map :: "string \<rightharpoonup> string"
  nuke_corners :: bool
  nuke_edges :: bool
  nuke_centers :: bool
  avoid_oll :: bool

text \<open>
  The fields of \<open>self\<close> that the search mutates. \<open>ida_nodes\<close> is a Python dict read in
  insertion order by \<open>get_best_ida_solution\<close>, hence an association list.
\<close>

record search =
  prune_tables :: "prune_table list"
  ida_count :: int
  explored :: "nat list \<rightharpoonup> int"
  ida_nodes :: "(nat list \<times> move list) list"

text \<open>The puzzle collaborator \<open>self.parent\<close>: its state buffer and its solution log.\<close>

record cube =
  state :: "string list"
  solution :: "move list"

text \<open>The methods of the puzzle collaborator that this file calls.\<close>

record parent_ops =
  rotate :: "move \<Rightarrow> cube \<Rightarrow> cube"
  parent_nuke_corners :: "cube \<Rightarrow> cube"
  parent_nuke_edges :: "cube \<Rightarrow> cube"
  parent_nuke_centers :: "cube \<Rightarrow> cube"

section \<open>Construction\<close>

text \<open>\<open>for (index, step) in enumerate(self.moves_all): self.step_index[step] = index\<close>\<close>

definition build_step_index :: "move list \<Rightarrow> (move \<rightharpoonup> nat)" where
  "build_step_index ms = fold (\<lambda>(index, step) m. m(step \<mapsto> index)) (enumerate 0 ms) Map.empty"

text \<open>
  The body of the two nested loops over \<open>step1\<close> and \<open>step2\<close>; the relation
  \<open>steps_on_same_face_and_layer\<close> is imported from another module and is a parameter
  \<open>sfl\<close> here.
\<close>

definition cache_pair ::
  "(move option \<Rightarrow> move \<Rightarrow> bool) \<Rightarrow> move option \<Rightarrow> move \<Rightarrow>
   ((move option \<times> move) \<rightharpoonup> bool) \<times> (move option \<rightharpoonup> move list) \<Rightarrow>
   ((move option \<times> move) \<rightharpoonup> bool) \<times> (move option \<rightharpoonup> move list)" where
  "cache_pair sfl step1 step2 = (\<lambda>(cache, nots).
     if sfl step1 step2 then (cache((step1, step2) \<mapsto> True), nots)
     else (cache((step1, step2) \<mapsto> False),
           nots(step1 \<mapsto> (case nots step1 of None \<Rightarrow> [] | Some l \<Rightarrow> l) @ [step2])))"

definition build_caches ::
  "(move option \<Rightarrow> move \<Rightarrow> bool) \<Rightarrow> move list \<Rightarrow>
   ((move option \<times> move) \<rightharpoonup> bool) \<times> (move option \<rightharpoonup> move list)" where
  "build_caches sfl ms =
     fold (\<lambda>step1. fold (cache_pair sfl step1) ms) (map Some ms @ [None]) (Map.empty, Map.empty)"

text \<open>
  \<open>__init__\<close>, as far as this file decides it (the base class constructor is elsewhere).
  \<open>if legal_moves:\<close> is Python truthiness: an empty list counts as not supplied.
\<close>

definition init ::
  "(move option \<Rightarrow> move \<Rightarrow> bool) \<Rightarrow> move list \<Rightarrow> move list \<Rightarrow> move list \<Rightarrow> error + lookup_table" where
  "init sfl moves_all_arg moves_illegal legal_moves =
     (case find (\<lambda>x. x \<notin> set moves_all_arg) moves_illegal of
        Some x \<Rightarrow> Inl (IllegalMoveNotLegal x)
      | None \<Rightarrow>
          (let ms = (if legal_moves \<noteq> [] then legal_moves
                     else filter (\<lambda>x. x \<notin> set moves_illegal) moves_all_arg);
               caches = build_caches sfl ms
           in Inr \<lparr> moves_all = ms,
                    step_index = build_step_index ms,
                    ROW_LENGTH = 1 + 4 * length ms,
                    steps_on_same_face_and_layer_cache = fst caches,
                    steps_not_on_same_face_and_layer = snd caches \<rparr>))"

text \<open>The staging fields as the constructor leaves them.\<close>

definition init_staging :: staging where
  "init_staging =
     \<lparr> recolor_positions = [], recolor_map = Map.empty,
       nuke_corners = False, nuke_edges = False, nuke_centers = False, avoid_oll = False \<rparr>"

section \<open>Heuristic\<close>

definition get_ida_graph_nodes :: "search \<Rightarrow> nat list" where
  "get_ida_graph_nodes st = map ida_graph_node (prune_tables st)"

text \<open>\<open>for (pt, node) in zip(prune_tables, ida_graph_nodes): pt.ida_graph_node = node\<close>\<close>

fun set_ida_graph_nodes :: "prune_table list \<Rightarrow> nat list \<Rightarrow> prune_table list" where
  "set_ida_graph_nodes (pt # pts) (node # nodes) =
     pt\<lparr>ida_graph_node := node\<rparr> # set_ida_graph_nodes pts nodes"
| "set_ida_graph_nodes pts [] = pts"
| "set_ida_graph_nodes [] nodes = []"

definition init_ida_graph_nodes :: "string list \<Rightarrow> prune_table list \<Rightarrow> prune_table list" where
  "init_ida_graph_nodes cube_state pts =
     map (\<lambda>pt. pt\<lparr>ida_graph_node := state_index pt cube_state\<rparr>) pts"

text \<open>
  The loop of \<open>ida_heuristic\<close> with its two accumulators. \<open>pt.ida_graph[offset]\<close> raises
  \<open>IndexError\<close> past the end of the bytes.
\<close>

fun heuristic_loop :: "nat \<Rightarrow> prune_table list \<Rightarrow> nat list \<Rightarrow> nat \<Rightarrow> error + (nat list \<times> nat)" where
  "heuristic_loop rl [] lt_state cost_to_goal = Inr (lt_state, cost_to_goal)"
| "heuristic_loop rl (pt # pts) lt_state cost_to_goal =
     (let offset = ida_graph_node pt * rl in
      if offset < length (ida_graph pt) then
        (let pt_cost_to_goal = unat (ida_graph pt ! offset) in
         heuristic_loop rl pts (lt_state @ [ida_graph_node pt])
           (if pt_cost_to_goal > cost_to_goal then pt_cost_to_goal else cost_to_goal))
      else Inl IndexError)"

definition ida_heuristic :: "lookup_table \<Rightarrow> search \<Rightarrow> error + (nat list \<times> nat)" where
  "ida_heuristic cfg st = heuristic_loop (ROW_LENGTH cfg) (prune_tables st) [] 0"

section \<open>Applying a move through the graph\<close>

text \<open>\<open>struct.unpack(">L", bs)[0]\<close> on exactly four bytes: big-endian unsigned.\<close>

definition unpack_L :: "byte list \<Rightarrow> nat" where
  "unpack_L bs = foldl (\<lambda>acc b. acc * 256 + unat b) 0 bs"

text \<open>
  The loop that advances every table's \<open>ida_graph_node\<close> by \<open>step\<close> and collects
  \<open>curr_ida_graph_nodes\<close>. \<open>step_index[step]\<close> is looked up inside the loop body; a
  slice shorter than four bytes makes \<open>struct.unpack\<close> raise.
\<close>

fun advance_nodes ::
  "lookup_table \<Rightarrow> move \<Rightarrow> prune_table list \<Rightarrow> error + (prune_table list \<times> nat list)" where
  "advance_nodes cfg step [] = Inr ([], [])"
| "advance_nodes cfg step (pt # pts) =
     (case step_index cfg step of
        None \<Rightarrow> Inl KeyError
      | Some i \<Rightarrow>
          (let start = ida_graph_node pt * ROW_LENGTH cfg + 1 + i * 4 in
           if start + 4 \<le> length (ida_graph pt) then
             (let node = unpack_L (take 4 (drop start (ida_graph pt))) in
              case advance_nodes cfg step pts of
                Inl e \<Rightarrow> Inl e
              | Inr (pts', nodes) \<Rightarrow> Inr (pt\<lparr>ida_graph_node := node\<rparr> # pts', node # nodes))
           else Inl StructError))"

section \<open>The recursive search\<close>

text \<open>
  The test at the top of the \<open>for step in next_steps\<close> body: whether the candidate is
  skipped (\<open>continue\<close>) because of the marker \<open>skip_other_steps_this_face\<close>.
\<close>

definition skip_step :: "lookup_table \<Rightarrow> move option \<Rightarrow> move \<Rightarrow> error + bool" where
  "skip_step cfg skip_other_steps_this_face step =
     (case skip_other_steps_this_face of
        None \<Rightarrow> Inr False
      | Some sk \<Rightarrow>
          (case steps_on_same_face_and_layer_cache cfg (Some sk, step) of
             None \<Rightarrow> Inl KeyError
           | Some b \<Rightarrow> Inr b))"

text \<open>
  Termination: every recursive call of the loop body raises \<open>cost_to_here\<close> by one, and
  the loop is entered only below the threshold (the heuristic is a byte, never negative).
\<close>

text \<open>
  \<open>ida_search\<close> and its \<open>for step in next_steps\<close> loop. The loop function returns
  \<open>Some (f_cost_tmp, True)\<close> when a child found a solution (the early \<open>return\<close>) and
  \<open>None\<close> when the candidates are exhausted. The heuristic is the inlined copy of
  \<open>ida_heuristic\<close>, which reads the tables' scratch nodes, not the parameter
  \<open>prev_ida_graph_nodes\<close>.
\<close>

function
  ida_search ::
    "lookup_table \<Rightarrow> int \<Rightarrow> move list \<Rightarrow> int \<Rightarrow> move option \<Rightarrow> nat list \<Rightarrow> search \<Rightarrow>
     error + ((int \<times> bool) \<times> search)"
and
  ida_search_steps ::
    "lookup_table \<Rightarrow> int \<Rightarrow> move list \<Rightarrow> int \<Rightarrow> nat list \<Rightarrow> move option \<Rightarrow> move list \<Rightarrow> search \<Rightarrow>
     error + ((int \<times> bool) option \<times> search)"
where
  "ida_search cfg cost_to_here steps_to_here threshold prev_step prev_ida_graph_nodes st0 =
     (let st = st0\<lparr>ida_count := ida_count st0 + 1\<rparr> in
      case ida_heuristic cfg st of
        Inl e \<Rightarrow> Inl e
      | Inr (lt_state, cost_to_goal) \<Rightarrow>
          (let f_cost = cost_to_here + int cost_to_goal in
           if f_cost \<ge> threshold then Inr ((f_cost, False), st)
           else if cost_to_goal = 0 then
             Inr ((f_cost, True),
                  st\<lparr>ida_nodes := AList.update lt_state steps_to_here (ida_nodes st)\<rparr>)
           else if (case explored st lt_state of None \<Rightarrow> 99 | Some c \<Rightarrow> c) \<le> cost_to_here then
             Inr ((f_cost, False), st)
           else
             (case steps_not_on_same_face_and_layer cfg prev_step of
                None \<Rightarrow> Inl KeyError
              | Some next_steps \<Rightarrow>
                  (case ida_search_steps cfg cost_to_here steps_to_here threshold
                          prev_ida_graph_nodes None next_steps
                          (st\<lparr>explored := (explored st)(lt_state \<mapsto> cost_to_here)\<rparr>) of
                     Inl e \<Rightarrow> Inl e
                   | Inr (Some r, st') \<Rightarrow> Inr (r, st')
                   | Inr (None, st') \<Rightarrow> Inr ((f_cost, False), st')))))"
| "ida_search_steps cfg cost_to_here steps_to_here threshold prev_ida_graph_nodes
     skip_other_steps_this_face [] st = Inr (None, st)"
| "ida_search_steps cfg cost_to_here steps_to_here threshold prev_ida_graph_nodes
     skip_other_steps_this_face (step # rest) st =
     (case skip_step cfg skip_other_steps_this_face step of
        Inl e \<Rightarrow> Inl e
      | Inr True \<Rightarrow>
          ida_search_steps cfg cost_to_here steps_to_here threshold prev_ida_graph_nodes
            skip_other_steps_this_face rest st
      | Inr False \<Rightarrow>
          (case advance_nodes cfg step (set_ida_graph_nodes (prune_tables st) prev_ida_graph_nodes) of
             Inl e \<Rightarrow> Inl e
           | Inr (pts, curr_ida_graph_nodes) \<Rightarrow>
               (case ida_search cfg (cost_to_here + 1) (steps_to_here @ [step]) threshold
                       (Some step) curr_ida_graph_nodes (st\<lparr>prune_tables := pts\<rparr>) of
                  Inl e \<Rightarrow> Inl e
                | Inr ((f_cost_tmp, found_solution), st') \<Rightarrow>
                    if found_solution then Inr (Some (f_cost_tmp, True), st')
                    else
                      ida_search_steps cfg cost_to_here steps_to_here threshold prev_ida_graph_nodes
                        (if f_cost_tmp > threshold then Some step else None) rest st')))"
  by pat_completeness auto

termination
  apply (relation "inv_image (less_than <*lex*> less_than)
      (\<lambda>x. case x of
          Inl (cfg, c, steps, T, prev, nodes, st) \<Rightarrow> (2 * nat (T - c), 0)
        | Inr (cfg, c, steps, T, nodes, skip, cands, st) \<Rightarrow>
            (2 * nat (T - c) - 1, Suc (length cands)))")
      apply auto
  done

declare ida_search.simps [simp del] ida_search_steps.simps [simp del]

section \<open>The driver\<close>

text \<open>
  The loop of \<open>recolor\<close> over \<open>recolor_positions\<close>; \<open>if x_new_color:\<close> is truthiness,
  so a missing key and an empty string both leave the position alone. Reading
  \<open>self.parent.state[x]\<close> past the end raises, with the positions before it already
  rewritten.
\<close>

fun recolor_loop :: "(string \<rightharpoonup> string) \<Rightarrow> nat list \<Rightarrow> string list \<Rightarrow> error option \<times> string list" where
  "recolor_loop m [] s = (None, s)"
| "recolor_loop m (x # xs) s =
     (if x < length s then
        (case m (s ! x) of
           None \<Rightarrow> recolor_loop m xs s
         | Some x_new_color \<Rightarrow>
             if x_new_color \<noteq> [] then recolor_loop m xs (s[x := x_new_color])
             else recolor_loop m xs s)
      else (Some IndexError, s))"

definition recolor :: "parent_ops \<Rightarrow> staging \<Rightarrow> cube \<Rightarrow> error option \<times> cube" where
  "recolor ops stg c =
     (if nuke_corners stg \<or> nuke_edges stg \<or> nuke_centers stg \<or> recolor_positions stg \<noteq> [] then
        (let c1 = (if nuke_corners stg then parent_nuke_corners ops c else c);
             c2 = (if nuke_edges stg then parent_nuke_edges ops c1 else c1);
             c3 = (if nuke_centers stg then parent_nuke_centers ops c2 else c2);
             r = recolor_loop (recolor_map stg) (recolor_positions stg) (state c3)
         in (fst r, c3\<lparr>state := snd r\<rparr>))
      else (None, c))"

text \<open>The loop of \<open>get_best_ida_solution\<close> with \<open>min_steps\<close> and \<open>min_steps_len\<close>.\<close>

fun best_loop :: "(nat list \<times> move list) list \<Rightarrow> move list option \<Rightarrow> nat option \<Rightarrow> move list option" where
  "best_loop [] min_steps min_steps_len = min_steps"
| "best_loop ((lt_state, steps) # rest) min_steps min_steps_len =
     (case min_steps_len of
        None \<Rightarrow> best_loop rest (Some steps) (Some (length steps))
      | Some l \<Rightarrow>
          if length steps < l then best_loop rest (Some steps) (Some (length steps))
          else best_loop rest min_steps min_steps_len)"

definition get_best_ida_solution :: "search \<Rightarrow> move list option" where
  "get_best_ida_solution st = best_loop (ida_nodes st) None None"

text \<open>
  \<open>for threshold in range(min_ida_threshold, max_ida_threshold + 1)\<close>. The result is the
  \<open>best_solution\<close> of the first iteration where \<open>if best_solution:\<close> holds, or \<open>None\<close>
  when the range is exhausted. \<open>if best_solution:\<close> is truthiness: \<open>None\<close> and the empty
  list both take the \<open>else\<close> branch. Each iteration starts from
  \<open>self.get_ida_graph_nodes()\<close>, the scratch nodes as the previous iteration left them.
\<close>

fun ida_thresholds :: "lookup_table \<Rightarrow> int list \<Rightarrow> search \<Rightarrow> error + move list option" where
  "ida_thresholds cfg [] st = Inr None"
| "ida_thresholds cfg (threshold # ts) st =
     (let st1 = st\<lparr>ida_count := 0, explored := Map.empty, ida_nodes := []\<rparr> in
      case ida_search cfg 0 [] threshold None (get_ida_graph_nodes st1) st1 of
        Inl e \<Rightarrow> Inl e
      | Inr (r, st2) \<Rightarrow>
          (case get_best_ida_solution st2 of
             None \<Rightarrow> ida_thresholds cfg ts st2
           | Some best_solution \<Rightarrow>
               if best_solution \<noteq> [] then Inr (Some best_solution)
               else ida_thresholds cfg ts st2))"

text \<open>
  \<open>solve\<close>. The result pairs the outcome (an exception or the returned \<open>True\<close>) with the
  puzzle as the call leaves it. The tables' graphs are taken as already loaded
  (\<open>load_ida_graph\<close> belongs to the table objects). \<open>pre_recolor\<close> is the snapshot
  taken before \<open>recolor\<close>, \<open>original\<close> the one taken after it. With \<open>avoid_oll\<close> set,
  both branches of the sanity check evaluate \<open>pformat\<close>, which is not defined in the
  module.
\<close>

definition solve ::
  "parent_ops \<Rightarrow> lookup_table \<Rightarrow> staging \<Rightarrow> int option \<Rightarrow> int \<Rightarrow> cube \<Rightarrow> search \<Rightarrow>
   (error + bool) \<times> cube" where
  "solve ops cfg stg min_ida_threshold max_ida_threshold c st =
     (let pre_recolor = c in
      case recolor ops stg c of
        (Some e, c1) \<Rightarrow> (Inl e, c1)
      | (None, c1) \<Rightarrow>
          (let original = c1 in
           if avoid_oll stg then (Inl NameError, c1)
           else
             (let st1 = st\<lparr>prune_tables := init_ida_graph_nodes (state c1) (prune_tables st)\<rparr> in
              case ida_heuristic cfg st1 of
                Inl e \<Rightarrow> (Inl e, c1)
              | Inr (lt_state, cost_to_goal) \<Rightarrow>
                  (let mn = (case min_ida_threshold of None \<Rightarrow> int cost_to_goal | Some m \<Rightarrow> m) in
                   if mn \<ge> max_ida_threshold + 1 then (Inl NoIDASolution, c1)
                   else
                     (case ida_thresholds cfg [mn..max_ida_threshold] st1 of
                        Inl e \<Rightarrow> (Inl e, c1)
                      | Inr (Some best_solution) \<Rightarrow>
                          (Inr True,
                           fold (rotate ops) best_solution
                             (c1\<lparr>state := state pre_recolor, solution := solution pre_recolor\<rparr>))
                      | Inr None \<Rightarrow>
                          (Inl NoIDASolution,
                           c1\<lparr>state := state original, solution := solution original\<rparr>))))))"

section \<open>Notions used by the properties\<close>

text \<open>Byte 0 of a table's row at offset \<open>node * ROW_LENGTH\<close>, read as an unsigned integer.\<close>

definition pt_cost :: "nat \<Rightarrow> prune_table \<Rightarrow> nat" where
  "pt_cost rl pt = unat (ida_graph pt ! (ida_graph_node pt * rl))"

text \<open>
  The part of \<open>ida_search\<close> after the explored memo has been written: the lookup of the
  candidates for \<open>prev_step\<close> and the loop over them, with the final \<open>return (f_cost, False)\<close>.
\<close>

definition expand_children ::
  "lookup_table \<Rightarrow> int \<Rightarrow> move list \<Rightarrow> int \<Rightarrow> move option \<Rightarrow> nat list \<Rightarrow> int \<Rightarrow> search \<Rightarrow>
   error + ((int \<times> bool) \<times> search)" where
  "expand_children cfg cost_to_here steps_to_here threshold prev_step prev_ida_graph_nodes f_cost st =
     (case steps_not_on_same_face_and_layer cfg prev_step of
        None \<Rightarrow> Inl KeyError
      | Some next_steps \<Rightarrow>
          (case ida_search_steps cfg cost_to_here steps_to_here threshold
                  prev_ida_graph_nodes None next_steps st of
             Inl e \<Rightarrow> Inl e
           | Inr (Some r, st') \<Rightarrow> Inr (r, st')
           | Inr (None, st') \<Rightarrow> Inr ((f_cost, False), st')))"

text \<open>
  What the loop body does with a candidate it does not skip: the scratch nodes are reset
  to \<open>prev_ida_graph_nodes\<close>, advanced by the step, and the search recurses.
\<close>

definition try_step ::
  "lookup_table \<Rightarrow> int \<Rightarrow> move list \<Rightarrow> int \<Rightarrow> nat list \<Rightarrow> move \<Rightarrow> search \<Rightarrow>
   error + ((int \<times> bool) \<times> search)" where
  "try_step cfg cost_to_here steps_to_here threshold prev_ida_graph_nodes step st =
     (case advance_nodes cfg step (set_ida_graph_nodes (prune_tables st) prev_ida_graph_nodes) of
        Inl e \<Rightarrow> Inl e
      | Inr (pts, curr_ida_graph_nodes) \<Rightarrow>
          ida_search cfg (cost_to_here + 1) (steps_to_here @ [step]) threshold (Some step)
            curr_ida_graph_nodes (st\<lparr>prune_tables := pts\<rparr>))"


text \<open>The move sequences held in \<open>self.ida_nodes\<close>.\<close>

definition recorded :: "search \<Rightarrow> move list set" where
  "recorded st = snd ` set (ida_nodes st)"

text \<open>
  A move sequence in which no move is same-face-layer related to the move before it.
\<close>

fun no_consecutive_same_face :: "(move option \<Rightarrow> move \<Rightarrow> bool) \<Rightarrow> move list \<Rightarrow> bool" where
  "no_consecutive_same_face sfl [] = True"
| "no_consecutive_same_face sfl [x] = True"
| "no_consecutive_same_face sfl (x # y # zs) =
     (\<not> sfl (Some x) y \<and> no_consecutive_same_face sfl (y # zs))"

text \<open>
  What the constructor's nested loops establish for \<open>steps_not_on_same_face_and_layer\<close>:
  every list holds moves of the move list that are not related to its key.
\<close>

definition candidates_unrelated ::
  "(move option \<Rightarrow> move \<Rightarrow> bool) \<Rightarrow> move list \<Rightarrow> (move option \<rightharpoonup> move list) \<Rightarrow> bool" where
  "candidates_unrelated sfl ms nots =
     (\<forall>p l. nots p = Some l \<longrightarrow> (\<forall>s \<in> set l. \<not> sfl p s \<and> s \<in> set ms))"

section \<open>Example inputs\<close>

text \<open>
  A stand-in for the imported relation: two moves are on the same face when they start
  with the same letter, and nothing is related to the absent previous move.
\<close>

fun same_face :: "move option \<Rightarrow> move \<Rightarrow> bool" where
  "same_face None m = False"
| "same_face (Some a) m = (take 1 a = take 1 m)"

text \<open>A search instance with the single move \<open>U\<close>, so rows are five bytes long.\<close>

definition one_move_cfg :: lookup_table where
  "one_move_cfg = projr (init same_face [''U''] [] [])"

text \<open>Two tables of two rows each; the first stands at node 0 (cost 2), the second at node 1 (cost 3).\<close>

definition two_tables :: search where
  "two_tables =
     \<lparr> prune_tables =
         [\<lparr> ida_graph = [2, 0, 0, 0, 0,  0, 0, 0, 0, 0], ida_graph_node = 0, state_index = (\<lambda>s. 0) \<rparr>,
          \<lparr> ida_graph = [1, 0, 0, 0, 1,  3, 0, 0, 0, 0], ida_graph_node = 1, state_index = (\<lambda>s. 1) \<rparr>],
       ida_count = 0, explored = Map.empty, ida_nodes = [] \<rparr>"

text \<open>One table with the single row of a goal node: the puzzle is already in the table.\<close>

definition solved_table :: search where
  "solved_table =
     \<lparr> prune_tables =
         [\<lparr> ida_graph = [0, 0, 0, 0, 0], ida_graph_node = 0, state_index = (\<lambda>s. 0) \<rparr>],
       ida_count = 0, explored = Map.empty, ida_nodes = [] \<rparr>"

text \<open>A search instance with the moves \<open>U\<close>, \<open>U2\<close>, \<open>R\<close>: rows are thirteen bytes long.\<close>

definition three_move_cfg :: lookup_table where
  "three_move_cfg = projr (init same_face [''U'', ''U2'', ''R''] [] [])"

text \<open>
  A graph of four nodes for these moves. From node 0 (cost 1), \<open>U\<close> leads to node 1
  (cost 3), \<open>U2\<close> to node 2 (cost 0) and \<open>R\<close> to node 3 (cost 1).
\<close>

definition skip_graph :: "byte list" where
  "skip_graph =
     [1,  0, 0, 0, 1,  0, 0, 0, 2,  0, 0, 0, 3,
      3,  0, 0, 0, 1,  0, 0, 0, 1,  0, 0, 0, 1,
      0,  0, 0, 0, 2,  0, 0, 0, 2,  0, 0, 0, 2,
      1,  0, 0, 0, 3,  0, 0, 0, 3,  0, 0, 0, 3]"

definition skip_table :: "nat \<Rightarrow> prune_table" where
  "skip_table n = \<lparr> ida_graph = skip_graph, ida_graph_node = n, state_index = (\<lambda>s. 0) \<rparr>"

definition skip_search :: search where
  "skip_search =
     \<lparr> prune_tables = [skip_table 0], ida_count = 0, explored = Map.empty, ida_nodes = [] \<rparr>"

text \<open>
  A graph for the same three moves in which the goal node 0 is three moves from node 3:
  \<open>U\<close> from 3 to 2, \<open>R\<close> from 2 to 1, \<open>U\<close> from 1 to 0.
\<close>

definition path_graph :: "byte list" where
  "path_graph =
     [0,  0, 0, 0, 0,  0, 0, 0, 0,  0, 0, 0, 0,
      1,  0, 0, 0, 0,  0, 0, 0, 1,  0, 0, 0, 1,
      2,  0, 0, 0, 2,  0, 0, 0, 2,  0, 0, 0, 1,
      3,  0, 0, 0, 2,  0, 0, 0, 3,  0, 0, 0, 3]"

definition path_search :: search where
  "path_search =
     \<lparr> prune_tables = [\<lparr> ida_graph = path_graph, ida_graph_node = 3, state_index = (\<lambda>s. 3) \<rparr>],
       ida_count = 0, explored = Map.empty, ida_nodes = [] \<rparr>"

text \<open>
  A puzzle collaborator whose \<open>rotate\<close> shifts the state buffer and appends the move to
  the solution log, a puzzle of two stickers with one move already logged, and a staging
  that recolors position 0 from \<open>U\<close> to \<open>x\<close>.
\<close>

definition log_ops :: parent_ops where
  "log_ops =
     \<lparr> rotate = (\<lambda>m c. c\<lparr>state := rotate1 (state c), solution := solution c @ [m]\<rparr>),
       parent_nuke_corners = (\<lambda>c. c),
       parent_nuke_edges = (\<lambda>c. c),
       parent_nuke_centers = (\<lambda>c. c) \<rparr>"

definition small_cube :: cube where
  "small_cube = \<lparr> state = [''U'', ''F''], solution = [''R''] \<rparr>"

definition recolor_U :: staging where
  "recolor_U = init_staging\<lparr>recolor_positions := [0], recolor_map := [''U'' \<mapsto> ''x'']\<rparr>"

text \<open>One table whose only node is five moves from the goal and leads back to itself.\<close>

definition far_table :: search where
  "far_table =
     \<lparr> prune_tables =
         [\<lparr> ida_graph = [5, 0, 0, 0, 0], ida_graph_node = 0, state_index = (\<lambda>s. 0) \<rparr>],
       ida_count = 0, explored = Map.empty, ida_nodes = [] \<rparr>"









section \<open>Unfolding the search\<close>

lemma ida_heuristic_ida_count [simp]:
  "ida_heuristic cfg (st\<lparr>ida_count := n\<rparr>) = ida_heuristic cfg st"
  by (simp add: ida_heuristic_def)

lemma ida_heuristic_explored [simp]:
  "ida_heuristic cfg (st\<lparr>explored := e\<rparr>) = ida_heuristic cfg st"
  by (simp add: ida_heuristic_def)

lemma ida_heuristic_ida_nodes [simp]:
  "ida_heuristic cfg (st\<lparr>ida_nodes := ns\<rparr>) = ida_heuristic cfg st"
  by (simp add: ida_heuristic_def)

lemma ida_search_unfold:
  assumes "ida_heuristic cfg st = Inr (lt_state, cost_to_goal)"
  shows "ida_search cfg cost_to_here steps_to_here threshold prev_step nodes st =
     (if cost_to_here + int cost_to_goal \<ge> threshold then
        Inr ((cost_to_here + int cost_to_goal, False), st\<lparr>ida_count := ida_count st + 1\<rparr>)
      else if cost_to_goal = 0 then
        Inr ((cost_to_here + int cost_to_goal, True),
             st\<lparr>ida_count := ida_count st + 1,
                ida_nodes := AList.update lt_state steps_to_here (ida_nodes st)\<rparr>)
      else if (case explored st lt_state of None \<Rightarrow> 99 | Some c \<Rightarrow> c) \<le> cost_to_here then
        Inr ((cost_to_here + int cost_to_goal, False), st\<lparr>ida_count := ida_count st + 1\<rparr>)
      else
        expand_children cfg cost_to_here steps_to_here threshold prev_step nodes
          (cost_to_here + int cost_to_goal)
          (st\<lparr>ida_count := ida_count st + 1,
              explored := (explored st)(lt_state \<mapsto> cost_to_here)\<rparr>))"
  using assms
  by (simp add: ida_search.simps Let_def expand_children_def split: option.split)

lemma ida_search_raises:
  "ida_heuristic cfg st = Inl e \<Longrightarrow>
   ida_search cfg cost_to_here steps_to_here threshold prev_step nodes st = Inl e"
  by (simp add: ida_search.simps Let_def)

lemma one_move_cfg_ROW_LENGTH: "ROW_LENGTH one_move_cfg = 5"
  by (simp add: one_move_cfg_def init_def Let_def)

lemma one_move_cfg_simps:
  "ROW_LENGTH one_move_cfg = 5"
  "moves_all one_move_cfg = [''U'']"
  "step_index one_move_cfg ''U'' = Some 0"
  "steps_not_on_same_face_and_layer one_move_cfg None = Some [''U'']"
  "steps_not_on_same_face_and_layer one_move_cfg (Some ''U'') = None"
  by (simp_all add: one_move_cfg_def init_def Let_def build_caches_def cache_pair_def
      build_step_index_def)

lemma ida_heuristic_two_tables: "ida_heuristic one_move_cfg two_tables = Inr ([0, 1], 3)"
  by (simp add: ida_heuristic_def one_move_cfg_ROW_LENGTH two_tables_def Let_def)

lemma ida_heuristic_solved_table: "ida_heuristic one_move_cfg solved_table = Inr ([0], 0)"
  by (simp add: ida_heuristic_def one_move_cfg_ROW_LENGTH solved_table_def Let_def)

lemma ida_search_steps_skip:
  assumes "steps_on_same_face_and_layer_cache cfg (Some marker, step) = Some True"
  shows "ida_search_steps cfg c steps T nodes (Some marker) (step # rest) st =
         ida_search_steps cfg c steps T nodes (Some marker) rest st"
  using assms by (simp add: ida_search_steps.simps skip_step_def)

lemma ida_search_steps_skip_run:
  assumes "\<forall>x \<in> set run. steps_on_same_face_and_layer_cache cfg (Some marker, x) = Some True"
  shows "ida_search_steps cfg c steps T nodes (Some marker) (run @ rest) st =
         ida_search_steps cfg c steps T nodes (Some marker) rest st"
  using assms by (induction run) (simp_all add: ida_search_steps_skip)

lemma ida_search_steps_Nil:
  "ida_search_steps cfg c steps T nodes skip [] st = Inr (None, st)"
  by (simp add: ida_search_steps.simps)

lemma ida_search_steps_try:
  assumes "skip_step cfg skip step = Inr False"
    and "try_step cfg c steps T nodes step st = Inr ((f, found), st')"
  shows "ida_search_steps cfg c steps T nodes skip (step # rest) st =
           (if found then Inr (Some (f, True), st')
            else ida_search_steps cfg c steps T nodes (if f > T then Some step else None) rest st')"
  using assms
  by (auto simp: ida_search_steps.simps try_step_def split: sum.splits prod.splits)

lemma three_move_init: "init same_face [''U'', ''U2'', ''R''] [] [] = Inr three_move_cfg"
  by (simp add: three_move_cfg_def init_def Let_def)

lemma three_move_cfg_simps:
  "ROW_LENGTH three_move_cfg = 13"
  "moves_all three_move_cfg = [''U'', ''U2'', ''R'']"
  "step_index three_move_cfg ''U'' = Some 0"
  "step_index three_move_cfg ''U2'' = Some 1"
  "step_index three_move_cfg ''R'' = Some 2"
  "steps_not_on_same_face_and_layer three_move_cfg None = Some [''U'', ''U2'', ''R'']"
  "steps_not_on_same_face_and_layer three_move_cfg (Some ''U'') = Some [''R'']"
  "steps_not_on_same_face_and_layer three_move_cfg (Some ''U2'') = Some [''R'']"
  "steps_not_on_same_face_and_layer three_move_cfg (Some ''R'') = Some [''U'', ''U2'']"
  "steps_on_same_face_and_layer_cache three_move_cfg (Some ''U'', ''U2'') = Some True"
  "steps_on_same_face_and_layer_cache three_move_cfg (Some ''U'', ''R'') = Some False"
  "steps_on_same_face_and_layer_cache three_move_cfg (Some ''R'', ''U'') = Some False"
  "steps_on_same_face_and_layer_cache three_move_cfg (Some ''R'', ''U2'') = Some False"
  by (simp_all add: three_move_cfg_def init_def Let_def build_caches_def cache_pair_def
      build_step_index_def)

lemma path_eval:
  "ida_search three_move_cfg 0 [] 4 None [3] path_search =
     Inr ((3, True),
       \<lparr> prune_tables = [\<lparr> ida_graph = path_graph, ida_graph_node = 0, state_index = (\<lambda>s. 3) \<rparr>],
         ida_count = 4, explored = [[3] \<mapsto> 0, [2] \<mapsto> 1, [1] \<mapsto> 2],
         ida_nodes = [([0], [''U'', ''R'', ''U''])] \<rparr>)"
  by (simp add: ida_search.simps ida_search_steps.simps three_move_cfg_simps path_search_def
      path_graph_def ida_heuristic_def skip_step_def unpack_L_def Let_def expand_children_def)

lemma path_thresholds:
  "ida_thresholds three_move_cfg [3, 4] path_search = Inr (Some [''U'', ''R'', ''U''])"
  by (simp add: ida_search.simps ida_search_steps.simps three_move_cfg_simps path_search_def
      path_graph_def ida_heuristic_def skip_step_def unpack_L_def Let_def
      get_ida_graph_nodes_def get_best_ida_solution_def)

lemma skip_table_tries:
  "try_step three_move_cfg 0 [] 2 [0] ''U'' skip_search =
     Inr ((4, False), skip_search\<lparr>prune_tables := [skip_table 1], ida_count := 1\<rparr>)"
  "try_step three_move_cfg 0 [] 4 [0] ''U'' skip_search =
     Inr ((4, False), skip_search\<lparr>prune_tables := [skip_table 1], ida_count := 1\<rparr>)"
  "try_step three_move_cfg 0 [] 2 [0] ''R''
       (skip_search\<lparr>prune_tables := [skip_table 1], ida_count := 1\<rparr>) =
     Inr ((2, False), skip_search\<lparr>prune_tables := [skip_table 3], ida_count := 2\<rparr>)"
  "try_step three_move_cfg 0 [] 4 [0] ''U2''
       (skip_search\<lparr>prune_tables := [skip_table 1], ida_count := 1\<rparr>) =
     Inr ((1, True), skip_search\<lparr>prune_tables := [skip_table 2], ida_count := 2,
                       ida_nodes := [([2], [''U2''])]\<rparr>)"
  by (simp_all add: try_step_def ida_search.simps three_move_cfg_simps skip_search_def
      skip_table_def skip_graph_def ida_heuristic_def unpack_L_def Let_def)








lemma solve_exhausted:
  assumes "recolor ops stg c = (None, c1)"
    and "\<not> avoid_oll stg"
    and "ida_heuristic cfg (st\<lparr>prune_tables := init_ida_graph_nodes (state c1) (prune_tables st)\<rparr>)
           = Inr (lt, h)"
    and "ida_thresholds cfg
           [(case min_ida_threshold of None \<Rightarrow> int h | Some m \<Rightarrow> m)..max_ida_threshold]
           (st\<lparr>prune_tables := init_ida_graph_nodes (state c1) (prune_tables st)\<rparr>)
           = Inr None"
  shows "solve ops cfg stg min_ida_threshold max_ida_threshold c st = (Inl NoIDASolution, c1)"
  using assms by (simp add: solve_def Let_def)

lemma small_cube_no_recolor: "recolor ops init_staging c = (None, c)"
  by (simp add: recolor_def init_staging_def)







section \<open>Construction of the move list\<close>

text \<open>
  Claim C9. The constructor raises if and only if some supplied illegal move is not in
  the candidate superset \<open>moves_all\<close>. When it succeeds, the move list is \<open>legal_moves\<close>
  verbatim if one is supplied (a non-empty list), and otherwise the superset without the
  illegal moves, in the superset's order.
\<close>

theorem init_raises_iff_illegal_outside:
  "((\<exists>e. init sfl moves_all_arg moves_illegal legal_moves = Inl e)
      \<longleftrightarrow> (\<exists>x \<in> set moves_illegal. x \<notin> set moves_all_arg))
   \<and> (\<forall>cfg. init sfl moves_all_arg moves_illegal legal_moves = Inr cfg \<longrightarrow>
          moves_all cfg = (if legal_moves \<noteq> [] then legal_moves
                           else filter (\<lambda>x. x \<notin> set moves_illegal) moves_all_arg))"
proof (cases "find (\<lambda>x. x \<notin> set moves_all_arg) moves_illegal")
  case None
  then have "\<not> (\<exists>x \<in> set moves_illegal. x \<notin> set moves_all_arg)"
    by (auto simp: find_None_iff)
  with None show ?thesis
    by (auto simp: init_def Let_def)
next
  case (Some x)
  then have "\<exists>x \<in> set moves_illegal. x \<notin> set moves_all_arg"
    by (auto simp: find_Some_iff)
  with Some show ?thesis
    by (auto simp: init_def)
qed

theorem init_raises_iff_illegal_outside_witness:
  "(\<exists>e. init same_face [''U'', ''R''] [''F''] [] = Inl e)
   \<and> (\<exists>cfg. init same_face [''U'', ''U2'', ''R''] [''U2''] [] = Inr cfg
          \<and> moves_all cfg = [''U'', ''R''])
   \<and> (\<exists>cfg. init same_face [''U'', ''U2'', ''R''] [''U2''] [''R'', ''U''] = Inr cfg
          \<and> moves_all cfg = [''R'', ''U''])"
proof -
  have a: "\<exists>e. init same_face [''U'', ''R''] [''F''] [] = Inl e"
    using init_raises_iff_illegal_outside [of same_face "[''U'', ''R'']" "[''F'']" "[]"] by simp
  have "\<not> (\<exists>e. init same_face [''U'', ''U2'', ''R''] [''U2''] [] = Inl e)"
    using init_raises_iff_illegal_outside [of same_face "[''U'', ''U2'', ''R'']" "[''U2'']" "[]"]
    by simp
  then obtain c1 where c1: "init same_face [''U'', ''U2'', ''R''] [''U2''] [] = Inr c1"
    by (cases "init same_face [''U'', ''U2'', ''R''] [''U2''] []") auto
  have b: "moves_all c1 = [''U'', ''R'']"
    using init_raises_iff_illegal_outside [of same_face "[''U'', ''U2'', ''R'']" "[''U2'']" "[]"] c1
    by simp
  have "\<not> (\<exists>e. init same_face [''U'', ''U2'', ''R''] [''U2''] [''R'', ''U''] = Inl e)"
    using init_raises_iff_illegal_outside
      [of same_face "[''U'', ''U2'', ''R'']" "[''U2'']" "[''R'', ''U'']"]
    by simp
  then obtain c2 where c2: "init same_face [''U'', ''U2'', ''R''] [''U2''] [''R'', ''U''] = Inr c2"
    by (cases "init same_face [''U'', ''U2'', ''R''] [''U2''] [''R'', ''U'']") auto
  have c: "moves_all c2 = [''R'', ''U'']"
    using init_raises_iff_illegal_outside
      [of same_face "[''U'', ''U2'', ''R'']" "[''U2'']" "[''R'', ''U'']"] c2
    by simp
  from a b c c1 c2 show ?thesis by blast
qed

section \<open>The heuristic is the maximum of the tables' costs\<close>

lemma heuristic_loop_max:
  assumes "\<forall>pt \<in> set pts. ida_graph_node pt * rl < length (ida_graph pt)"
  shows "heuristic_loop rl pts lt_state c =
           Inr (lt_state @ map ida_graph_node pts, Max (insert c (pt_cost rl ` set pts)))"
  using assms
proof (induction pts arbitrary: lt_state c)
  case Nil
  then show ?case by simp
next
  case (Cons pt pts)
  let ?p = "pt_cost rl pt"
  have m: "(if ?p > c then ?p else c) = max c ?p" by (simp add: max_def)
  have step: "heuristic_loop rl (pt # pts) lt_state c =
                heuristic_loop rl pts (lt_state @ [ida_graph_node pt]) (max c ?p)"
    using Cons.prems m by (simp add: Let_def pt_cost_def)
  have ih: "heuristic_loop rl pts (lt_state @ [ida_graph_node pt]) (max c ?p) =
              Inr ((lt_state @ [ida_graph_node pt]) @ map ida_graph_node pts,
                   Max (insert (max c ?p) (pt_cost rl ` set pts)))"
    using Cons.prems by (intro Cons.IH) simp
  have mx: "Max (insert (max c ?p) (pt_cost rl ` set pts))
        = Max (insert c (insert ?p (pt_cost rl ` set pts)))"
    by (cases "pt_cost rl ` set pts = {}") (simp_all add: max.assoc)
  show ?case
    unfolding step ih mx by simp
qed

text \<open>
  Claim C3. With at least one table, and every table's row offset inside its graph, the
  heuristic returns the tuple of the tables' node indices and, as \<open>cost_to_goal\<close>, the
  maximum (not the sum) over the tables of byte 0 of the row at \<open>node * ROW_LENGTH\<close>. It
  is a function of the search state that returns no state: the tables are only read.
\<close>

theorem ida_heuristic_max:
  assumes "prune_tables st \<noteq> []"
    and "\<forall>pt \<in> set (prune_tables st). ida_graph_node pt * ROW_LENGTH cfg < length (ida_graph pt)"
  shows "ida_heuristic cfg st =
           Inr (get_ida_graph_nodes st, Max (pt_cost (ROW_LENGTH cfg) ` set (prune_tables st)))"
proof -
  let ?S = "pt_cost (ROW_LENGTH cfg) ` set (prune_tables st)"
  have "?S \<noteq> {}" and "finite ?S" using assms(1) by simp_all
  then have "Max (insert 0 ?S) = Max ?S" by simp
  then show ?thesis
    using heuristic_loop_max [OF assms(2), of "[]" 0]
    by (simp add: ida_heuristic_def get_ida_graph_nodes_def)
qed

theorem ida_heuristic_max_witness:
  "prune_tables two_tables \<noteq> []
   \<and> ida_heuristic one_move_cfg two_tables = Inr ([0, 1], 3)"
proof -
  note rl = one_move_cfg_ROW_LENGTH
  have h1: "prune_tables two_tables \<noteq> []"
    by (simp add: two_tables_def)
  have h2: "\<forall>pt \<in> set (prune_tables two_tables).
              ida_graph_node pt * ROW_LENGTH one_move_cfg < length (ida_graph pt)"
    by (simp add: rl two_tables_def)
  show ?thesis
    using h1 h2 ida_heuristic_max [OF h1 h2]
    by (simp add: rl two_tables_def pt_cost_def get_ida_graph_nodes_def)
qed

section \<open>Cutoff, goal test and explored memo\<close>

text \<open>
  Claim C4. When the heuristic of the current node is \<open>cost_to_goal\<close>: if
  \<open>cost_to_here + cost_to_goal \<ge> threshold\<close> the call returns \<open>(f_cost, False)\<close> and
  changes nothing but the call counter (no solution recorded, no child expanded), also
  when \<open>cost_to_goal\<close> is 0; only below the threshold does \<open>cost_to_goal = 0\<close> record
  \<open>steps_to_here\<close> for the node and return \<open>(f_cost, True)\<close>.
\<close>

theorem ida_search_cutoff_before_goal:
  assumes "ida_heuristic cfg st = Inr (lt_state, cost_to_goal)"
  shows "(cost_to_here + int cost_to_goal \<ge> threshold \<longrightarrow>
            ida_search cfg cost_to_here steps_to_here threshold prev_step nodes st =
              Inr ((cost_to_here + int cost_to_goal, False), st\<lparr>ida_count := ida_count st + 1\<rparr>))
       \<and> (cost_to_here + int cost_to_goal < threshold \<and> cost_to_goal = 0 \<longrightarrow>
            ida_search cfg cost_to_here steps_to_here threshold prev_step nodes st =
              Inr ((cost_to_here + int cost_to_goal, True),
                   st\<lparr>ida_count := ida_count st + 1,
                      ida_nodes := AList.update lt_state steps_to_here (ida_nodes st)\<rparr>))"
  by (simp add: ida_search_unfold [OF assms])

theorem ida_search_cutoff_before_goal_witness:
  "ida_search one_move_cfg 0 [] 3 None [0, 1] two_tables =
     Inr ((3, False), two_tables\<lparr>ida_count := 1\<rparr>)
   \<and> ida_search one_move_cfg 0 [] 0 None [0] solved_table =
     Inr ((0, False), solved_table\<lparr>ida_count := 1\<rparr>)
   \<and> ida_search one_move_cfg 0 [] 1 None [0] solved_table =
     Inr ((0, True), solved_table\<lparr>ida_count := 1, ida_nodes := [([0], [])]\<rparr>)"
  using ida_search_cutoff_before_goal [OF ida_heuristic_two_tables, of 3 0 "[]" None "[0, 1]"]
    ida_search_cutoff_before_goal [OF ida_heuristic_solved_table, of 0 0 "[]" None "[0]"]
    ida_search_cutoff_before_goal [OF ida_heuristic_solved_table, of 1 0 "[]" None "[0]"]
  by (simp add: two_tables_def solved_table_def)






section \<open>The skip-face marker\<close>

text \<open>
  Claim C6. Let a candidate be tried (there is no marker, or it is not related to the
  marker) and let its recursive call return \<open>found = False\<close> with \<open>f_cost\<close>. If it is the
  last candidate, the loop ends with the state that call left. If \<open>f_cost > threshold\<close>,
  the candidate becomes the marker: the candidates after it that are related to it are
  skipped, neither applied nor recursed into, so that the loop over the candidate and
  such a run ends with the state the candidate's call left, and goes on after the run
  with the marker still set. If \<open>f_cost \<le> threshold\<close>, the marker is cleared: the loop
  goes on without a marker, and the next candidate is tried whatever its relation to the
  earlier ones, the loop over the two returning what that second call returns.
\<close>

theorem skip_face_marker:
  assumes tried: "skip = None \<or>
        (\<exists>m. skip = Some m \<and> steps_on_same_face_and_layer_cache cfg (Some m, step) = Some False)"
    and child: "try_step cfg c steps T nodes step st = Inr ((f, False), st')"
  shows "ida_search_steps cfg c steps T nodes skip [step] st = Inr (None, st')
       \<and> (f > T \<and> (\<forall>x \<in> set run. steps_on_same_face_and_layer_cache cfg (Some step, x) = Some True) \<longrightarrow>
            ida_search_steps cfg c steps T nodes skip (step # run) st = Inr (None, st')
            \<and> ida_search_steps cfg c steps T nodes skip (step # run @ rest) st =
                ida_search_steps cfg c steps T nodes (Some step) rest st')
       \<and> (f \<le> T \<longrightarrow>
            ida_search_steps cfg c steps T nodes skip (step # rest) st =
              ida_search_steps cfg c steps T nodes None rest st'
            \<and> (\<forall>step2 f2 found2 st2.
                  try_step cfg c steps T nodes step2 st' = Inr ((f2, found2), st2) \<longrightarrow>
                  ida_search_steps cfg c steps T nodes skip [step, step2] st =
                    (if found2 then Inr (Some (f2, True), st2) else Inr (None, st2))))"
proof -
  from tried have sk: "skip_step cfg skip step = Inr False"
    by (auto simp: skip_step_def)
  note t = ida_search_steps_try [OF sk child]
  have one: "ida_search_steps cfg c steps T nodes skip [step] st = Inr (None, st')"
    using t [of "[]"] by (simp add: ida_search_steps_Nil)
  have over: "ida_search_steps cfg c steps T nodes skip (step # run @ rest) st =
                ida_search_steps cfg c steps T nodes (Some step) rest st'"
    if "f > T" "\<forall>x \<in> set run. steps_on_same_face_and_layer_cache cfg (Some step, x) = Some True"
    for run rest
    using t [of "run @ rest"] that ida_search_steps_skip_run [OF that(2)] by simp
  have over_end: "ida_search_steps cfg c steps T nodes skip (step # run) st = Inr (None, st')"
    if "f > T" "\<forall>x \<in> set run. steps_on_same_face_and_layer_cache cfg (Some step, x) = Some True"
    using over [OF that, of "[]"] by (simp add: ida_search_steps_Nil)
  have within: "ida_search_steps cfg c steps T nodes skip (step # rest) st =
              ida_search_steps cfg c steps T nodes None rest st'"
    if "f \<le> T" for rest
    using t [of rest] that by simp
  have within2: "ida_search_steps cfg c steps T nodes skip [step, step2] st =
                    (if found2 then Inr (Some (f2, True), st2) else Inr (None, st2))"
    if "f \<le> T" "try_step cfg c steps T nodes step2 st' = Inr ((f2, found2), st2)"
    for step2 f2 found2 st2
  proof -
    have "skip_step cfg None step2 = Inr False" by (simp add: skip_step_def)
    from ida_search_steps_try [OF this that(2), of "[]"] within [OF that(1), of "[step2]"]
    show ?thesis by (simp add: ida_search_steps_Nil)
  qed
  from one over over_end within within2 show ?thesis by blast
qed

theorem skip_face_marker_witness:
  "ida_search_steps three_move_cfg 0 [] 2 [0] None [''U'', ''U2''] skip_search =
     Inr (None, skip_search\<lparr>prune_tables := [skip_table 1], ida_count := 1\<rparr>)
   \<and> ida_search_steps three_move_cfg 0 [] 4 [0] None [''U'', ''U2''] skip_search =
     Inr (Some (1, True), skip_search\<lparr>prune_tables := [skip_table 2], ida_count := 2,
                            ida_nodes := [([2], [''U2''])]\<rparr>)
   \<and> ida_search_steps three_move_cfg 0 [] 2 [0] None [''U'', ''U2'', ''R''] skip_search =
     Inr (None, skip_search\<lparr>prune_tables := [skip_table 3], ida_count := 2\<rparr>)"
proof -
  let ?S1 = "skip_search\<lparr>prune_tables := [skip_table 1], ida_count := 1\<rparr>"
  note over = skip_face_marker [where skip = None and run = "[''U2'']" and rest = "[''R'']",
      OF _ skip_table_tries(1)]
  note within = skip_face_marker [where skip = None and run = "[]" and rest = "[]",
      OF _ skip_table_tries(2)]
  note last = skip_face_marker [where skip = "Some ''U''" and run = "[]" and rest = "[]",
      OF _ skip_table_tries(3)]
  have w1: "ida_search_steps three_move_cfg 0 [] 2 [0] None [''U'', ''U2''] skip_search =
      Inr (None, ?S1)"
    using over by (simp add: three_move_cfg_simps)
  have w2: "ida_search_steps three_move_cfg 0 [] 4 [0] None [''U'', ''U2''] skip_search =
      Inr (Some (1, True), skip_search\<lparr>prune_tables := [skip_table 2], ida_count := 2,
                             ida_nodes := [([2], [''U2''])]\<rparr>)"
  proof -
    from within have "\<forall>step2 f2 found2 st2.
        try_step three_move_cfg 0 [] 4 [0] step2 ?S1 = Inr ((f2, found2), st2) \<longrightarrow>
        ida_search_steps three_move_cfg 0 [] 4 [0] None [''U'', step2] skip_search =
          (if found2 then Inr (Some (f2, True), st2) else Inr (None, st2))"
      by simp
    with skip_table_tries(4) show ?thesis by fastforce
  qed
  have "ida_search_steps three_move_cfg 0 [] 2 [0] None [''U'', ''U2'', ''R''] skip_search =
      ida_search_steps three_move_cfg 0 [] 2 [0] (Some ''U'') [''R''] ?S1"
    using over by (simp add: three_move_cfg_simps)
  also have "\<dots> = Inr (None, skip_search\<lparr>prune_tables := [skip_table 3], ida_count := 2\<rparr>)"
    using last by (simp add: three_move_cfg_simps)
  finally show ?thesis using w1 w2 by simp
qed

section \<open>Invariants of the recorded solutions\<close>

lemma recorded_simps [simp]:
  "recorded (st\<lparr>ida_count := n\<rparr>) = recorded st"
  "recorded (st\<lparr>explored := e\<rparr>) = recorded st"
  "recorded (st\<lparr>prune_tables := pts\<rparr>) = recorded st"
  by (simp_all add: recorded_def)

lemma set_update_subset: "set (AList.update k v al) \<subseteq> insert (k, v) (set al)"
  by (induction al) auto

lemma recorded_update:
  "recorded (st\<lparr>ida_nodes := AList.update k v (ida_nodes st)\<rparr>) \<subseteq> insert v (recorded st)"
  using set_update_subset [of k v "ida_nodes st"] by (force simp: recorded_def)

text \<open>
  A property \<open>P\<close> of move sequences holds of everything \<open>ida_search\<close> records, when it
  follows below the threshold from an invariant \<open>J\<close> of the arguments \<open>cost_to_here\<close>,
  \<open>steps_to_here\<close> and \<open>prev_step\<close> that every candidate step preserves.
\<close>

lemma recorded_invariant:
  fixes P :: "move list \<Rightarrow> bool" and J :: "int \<Rightarrow> move list \<Rightarrow> move option \<Rightarrow> bool"
  assumes "\<And>c steps prev. J c steps prev \<Longrightarrow> c < T \<Longrightarrow> P steps"
    and "\<And>c steps prev next_steps step.
           J c steps prev \<Longrightarrow> steps_not_on_same_face_and_layer cfg prev = Some next_steps \<Longrightarrow>
           step \<in> set next_steps \<Longrightarrow> J (c + 1) (steps @ [step]) (Some step)"
  shows "ida_search cfg c steps T prev nodes st = Inr (r, st') \<Longrightarrow> J c steps prev \<Longrightarrow>
           \<forall>sol \<in> recorded st. P sol \<Longrightarrow> \<forall>sol \<in> recorded st'. P sol"
    and "ida_search_steps cfg c steps T nodes skip cands st = Inr (r2, st2) \<Longrightarrow>
           \<forall>step \<in> set cands. J (c + 1) (steps @ [step]) (Some step) \<Longrightarrow>
           \<forall>sol \<in> recorded st. P sol \<Longrightarrow> \<forall>sol \<in> recorded st2. P sol"
  using assms
proof (induction cfg c steps T prev nodes st and cfg c steps T nodes skip cands st
    arbitrary: r st' and r2 st2 rule: ida_search_ida_search_steps.induct)
  case (1 cfg c steps T prev nodes st0)
  let ?st = "st0\<lparr>ida_count := ida_count st0 + 1\<rparr>"
  from "1.prems"(1) obtain lt h where h: "ida_heuristic cfg st0 = Inr (lt, h)"
    by (cases "ida_heuristic cfg st0") (auto simp: ida_search_raises)
  note u = ida_search_unfold [OF h, of c steps T prev nodes]
  consider (cut) "c + int h \<ge> T"
    | (goal) "c + int h < T" "h = 0"
    | (seen) "c + int h < T" "h \<noteq> 0" "(case explored st0 lt of None \<Rightarrow> 99 | Some c \<Rightarrow> c) \<le> c"
    | (expand) "c + int h < T" "h \<noteq> 0" "\<not> (case explored st0 lt of None \<Rightarrow> 99 | Some c \<Rightarrow> c) \<le> c"
    by linarith
  then show ?case
  proof cases
    case cut
    with u "1.prems"(1) have "st' = ?st" by simp
    with "1.prems"(3) show ?thesis by simp
  next
    case goal
    with u "1.prems"(1)
    have st': "st' = ?st\<lparr>ida_nodes := AList.update lt steps (ida_nodes ?st)\<rparr>" by simp
    have "P steps" using "1.prems"(2,4) goal by auto
    with "1.prems"(3) recorded_update [where st = ?st and k = lt and v = steps] show ?thesis
      unfolding st' by auto
  next
    case seen
    with u "1.prems"(1) have "st' = ?st" by simp
    with "1.prems"(3) show ?thesis by simp
  next
    case expand
    let ?st1 = "?st\<lparr>explored := (explored ?st)(lt \<mapsto> c)\<rparr>"
    from expand u "1.prems"(1)
    have e: "expand_children cfg c steps T prev nodes (c + int h) ?st1 = Inr (r, st')"
      by simp
    then obtain next_steps where n: "steps_not_on_same_face_and_layer cfg prev = Some next_steps"
      by (auto simp: expand_children_def split: option.splits)
    from e n obtain r2 where
      l: "ida_search_steps cfg c steps T nodes None next_steps ?st1 = Inr (r2, st')"
      by (auto simp: expand_children_def split: sum.splits option.splits)
    have J: "\<forall>step \<in> set next_steps. J (c + 1) (steps @ [step]) (Some step)"
      using "1.prems"(2,5) n by blast
    show ?thesis
    proof (rule "1.IH" [OF refl _ refl refl _ _ _ n l J _ "1.prems"(4,5)])
      show "ida_heuristic cfg ?st = Inr (lt, h)" using h by simp
      show "\<not> T \<le> c + int h" using expand by simp
      show "h \<noteq> 0" by fact
      show "\<not> (case explored ?st lt of None \<Rightarrow> 99 | Some c \<Rightarrow> c) \<le> c" using expand by simp
      show "\<forall>sol \<in> recorded ?st1. P sol" using "1.prems"(3) by simp
    qed
  qed
next
  case (2 cfg c steps T nodes skip st)
  then show ?case by (simp add: ida_search_steps.simps)
next
  case (3 cfg c steps T nodes skip step rest st)
  note run = "3.prems"(1) and J = "3.prems"(2) and inv = "3.prems"(3)
    and rec = "3.prems"(4) and down = "3.prems"(5)
  from J have Jrest: "\<forall>s \<in> set rest. J (c + 1) (steps @ [s]) (Some s)"
    and Jstep: "J (c + 1) (steps @ [step]) (Some step)" by simp_all
  from run obtain b where b: "skip_step cfg skip step = Inr b"
    by (cases "skip_step cfg skip step") (auto simp: ida_search_steps.simps)
  show ?case
  proof (cases b)
    case True
    then have bt: "b = True" by simp
    with b run have "ida_search_steps cfg c steps T nodes skip rest st = Inr (r2, st2)"
      by (simp add: ida_search_steps.simps)
    from "3.IH"(1) [OF b bt this Jrest inv rec down] show ?thesis .
  next
    case False
    then have bf: "b = False" by simp
    let ?adv = "advance_nodes cfg step (set_ida_graph_nodes (prune_tables st) nodes)"
    from b False run obtain pts curr_nodes where a: "?adv = Inr (pts, curr_nodes)"
      by (cases ?adv) (auto simp: ida_search_steps.simps)
    let ?child = "ida_search cfg (c + 1) (steps @ [step]) T (Some step) curr_nodes
                    (st\<lparr>prune_tables := pts\<rparr>)"
    from b False a run obtain f found st1 where ch: "?child = Inr ((f, found), st1)"
      by (cases ?child) (auto simp: ida_search_steps.simps)
    have inv0: "\<forall>sol \<in> recorded (st\<lparr>prune_tables := pts\<rparr>). P sol" using inv by simp
    have inv1: "\<forall>sol \<in> recorded st1. P sol"
      by (rule "3.IH"(2) [OF b bf a refl ch Jstep inv0 rec down])
    show ?thesis
    proof (cases found)
      case True
      with b False a ch run have "st2 = st1" by (simp add: ida_search_steps.simps)
      with inv1 show ?thesis by simp
    next
      case nf: False
      with b False a ch run
      have l: "ida_search_steps cfg c steps T nodes (if T < f then Some step else None) rest st1
                 = Inr (r2, st2)"
        by (simp add: ida_search_steps.simps)
      from nf have nf': "\<not> found" .
      show ?thesis
        by (rule "3.IH"(3) [OF b bf a refl ch refl refl nf' l Jrest inv1 rec down])
    qed
  qed
qed

text \<open>
  Claim C10. In a call whose \<open>cost_to_here\<close> is the length of \<open>steps_to_here\<close> (the root
  call of an iteration, with cost 0 and no steps, is one), every move sequence recorded
  is shorter than the threshold, if those recorded before are: a solution of length \<open>L\<close>
  is recorded at threshold \<open>L + 1\<close> at the earliest, and none at a threshold below 1.
\<close>

theorem recorded_shorter_than_threshold:
  assumes "ida_search cfg (int (length steps)) steps T prev nodes st = Inr (r, st')"
    and "\<forall>sol \<in> recorded st. int (length sol) < T"
  shows "\<forall>sol \<in> recorded st'. int (length sol) < T"
proof (rule recorded_invariant(1) [where J = "\<lambda>c steps prev. c = int (length steps)"
      and P = "\<lambda>sol. int (length sol) < T", OF _ _ assms(1) _ assms(2)])
qed simp_all

lemma path_search_recorded: "recorded path_search = {}"
  by (simp add: recorded_def path_search_def)

theorem recorded_shorter_than_threshold_witness:
  "(\<exists>r st'. ida_search three_move_cfg 0 [] 4 None [3] path_search = Inr (r, st')
       \<and> [''U'', ''R'', ''U''] \<in> recorded st' \<and> int (length [''U'', ''R'', ''U'']) < 4)
   \<and> (\<exists>r st'. ida_search three_move_cfg 0 [] 3 None [3] path_search = Inr (r, st')
       \<and> recorded st' = {})"
proof -
  let ?st4 = "\<lparr> prune_tables = [\<lparr> ida_graph = path_graph, ida_graph_node = 0, state_index = (\<lambda>s. 3) \<rparr>],
         ida_count = 4, explored = [[3] \<mapsto> 0, [2] \<mapsto> 1, [1] \<mapsto> 2],
         ida_nodes = [([0], [''U'', ''R'', ''U''])] \<rparr>"
  have e: "ida_search three_move_cfg (int (length ([] :: move list))) [] 4 None [3] path_search =
      Inr ((3, True), ?st4)"
    using path_eval by simp
  have m: "[''U'', ''R'', ''U''] \<in> recorded ?st4" by (simp add: recorded_def)
  have "\<forall>sol \<in> recorded ?st4. int (length sol) < 4"
    using recorded_shorter_than_threshold [OF e] path_search_recorded by simp
  with m have l: "int (length [''U'', ''R'', ''U'']) < 4" by blast
  have "ida_search three_move_cfg 0 [] 3 None [3] path_search =
      Inr ((3, False), path_search\<lparr>ida_count := 1\<rparr>)"
    by (simp add: ida_search.simps three_move_cfg_simps path_search_def
      path_graph_def ida_heuristic_def Let_def)
  moreover have "recorded (path_search\<lparr>ida_count := 1\<rparr>) = {}"
    using path_search_recorded by simp
  ultimately show ?thesis using path_eval m l by blast
qed

text \<open>The candidate lists built by the constructor.\<close>

lemma no_consecutive_snoc:
  "no_consecutive_same_face sfl (xs @ [s]) =
     (no_consecutive_same_face sfl xs \<and> (xs \<noteq> [] \<longrightarrow> \<not> sfl (Some (last xs)) s))"
  by (induction sfl xs rule: no_consecutive_same_face.induct) auto

lemma cache_pair_unrelated:
  assumes "candidates_unrelated sfl ms (snd cn)" and "s \<in> set ms"
  shows "candidates_unrelated sfl ms (snd (cache_pair sfl p s cn))"
proof (cases cn)
  case (Pair cache nots)
  with assms(1) have n: "\<And>q l x. nots q = Some l \<Longrightarrow> x \<in> set l \<Longrightarrow> \<not> sfl q x \<and> x \<in> set ms"
    by (auto simp: candidates_unrelated_def)
  show ?thesis
  proof (cases "sfl p s")
    case True
    with Pair assms(1) show ?thesis by (simp add: cache_pair_def)
  next
    case False
    have "\<not> sfl q x \<and> x \<in> set ms"
      if "(nots(p \<mapsto> (case nots p of None \<Rightarrow> [] | Some l \<Rightarrow> l) @ [s])) q = Some l" "x \<in> set l"
      for q l x
    proof (cases "q = p")
      case True
      with that have "x \<in> set (case nots p of None \<Rightarrow> [] | Some l \<Rightarrow> l) \<or> x = s" by auto
      then show ?thesis
        using n [of p] False assms(2) True by (cases "nots p") auto
    next
      case False
      with that n [of q l x] show ?thesis by simp
    qed
    with Pair False show ?thesis
      unfolding candidates_unrelated_def cache_pair_def by simp
  qed
qed

lemma fold_cache_pair_unrelated:
  assumes "candidates_unrelated sfl ms (snd cn)" and "set xs \<subseteq> set ms"
  shows "candidates_unrelated sfl ms (snd (fold (cache_pair sfl p) xs cn))"
  using assms
  by (induction xs arbitrary: cn) (simp_all add: cache_pair_unrelated)

lemma fold_fold_cache_pair_unrelated:
  assumes "candidates_unrelated sfl ms (snd cn)"
  shows "candidates_unrelated sfl ms (snd (fold (\<lambda>step1. fold (cache_pair sfl step1) ms) ps cn))"
  using assms
  by (induction ps arbitrary: cn) (simp_all add: fold_cache_pair_unrelated)

lemma build_caches_unrelated: "candidates_unrelated sfl ms (snd (build_caches sfl ms))"
  unfolding build_caches_def
  by (rule fold_fold_cache_pair_unrelated) (simp add: candidates_unrelated_def)

lemma init_unrelated:
  assumes "init sfl moves_all_arg moves_illegal legal_moves = Inr cfg"
  shows "candidates_unrelated sfl (moves_all cfg) (steps_not_on_same_face_and_layer cfg)"
  using assms build_caches_unrelated
  by (auto simp: init_def Let_def split: option.splits)

lemma cache_pair_apply:
  "cache_pair sfl p x (cache, nots) =
     (if sfl p x then (cache((p, x) \<mapsto> True), nots)
      else (cache((p, x) \<mapsto> False),
            nots(p \<mapsto> (case nots p of None \<Rightarrow> [] | Some l \<Rightarrow> l) @ [x])))"
  by (simp add: cache_pair_def)

lemma fold_cache_pair_nots:
  "snd (fold (cache_pair sfl p) xs (cache, nots)) =
     (if filter (\<lambda>s. \<not> sfl p s) xs = [] then nots
      else nots(p \<mapsto> (case nots p of None \<Rightarrow> [] | Some l \<Rightarrow> l) @ filter (\<lambda>s. \<not> sfl p s) xs))"
proof (induction xs arbitrary: cache nots)
  case Nil
  then show ?case by simp
next
  case (Cons x xs)
  show ?case
  proof (cases "sfl p x")
    case True
    then show ?thesis by (simp add: cache_pair_apply Cons.IH)
  next
    case False
    then show ?thesis by (auto simp: cache_pair_apply Cons.IH fun_eq_iff)
  qed
qed

lemma fold_fold_cache_pair_nots:
  assumes "distinct ps" and "\<forall>p \<in> set ps. nots p = None"
  shows "snd (fold (\<lambda>step1. fold (cache_pair sfl step1) ms) ps (cache, nots)) q =
     (if q \<in> set ps \<and> filter (\<lambda>s. \<not> sfl q s) ms \<noteq> [] then Some (filter (\<lambda>s. \<not> sfl q s) ms)
      else nots q)"
  using assms
proof (induction ps arbitrary: cache nots)
  case Nil
  then show ?case by simp
next
  case (Cons p ps)
  obtain cache' where f: "fold (cache_pair sfl p) ms (cache, nots) =
      (cache', snd (fold (cache_pair sfl p) ms (cache, nots)))"
    by (cases "fold (cache_pair sfl p) ms (cache, nots)") simp
  let ?nots' = "snd (fold (cache_pair sfl p) ms (cache, nots))"
  have n': "?nots' = (if filter (\<lambda>s. \<not> sfl p s) ms = [] then nots
      else nots(p \<mapsto> filter (\<lambda>s. \<not> sfl p s) ms))"
    using Cons.prems(2) by (simp add: fold_cache_pair_nots)
  have "\<forall>p' \<in> set ps. ?nots' p' = None"
    using Cons.prems n' by auto
  with Cons.prems(1) have
    "snd (fold (\<lambda>step1. fold (cache_pair sfl step1) ms) ps (cache', ?nots')) q =
       (if q \<in> set ps \<and> filter (\<lambda>s. \<not> sfl q s) ms \<noteq> [] then Some (filter (\<lambda>s. \<not> sfl q s) ms)
        else ?nots' q)"
    by (intro Cons.IH) simp_all
  then show ?case
    using f n' Cons.prems by auto
qed

lemma init_candidates_in_order:
  assumes "init sfl moves_all_arg moves_illegal legal_moves = Inr cfg"
    and "distinct (moves_all cfg)"
    and "steps_not_on_same_face_and_layer cfg prev = Some next_steps"
  shows "next_steps = filter (\<lambda>s. \<not> sfl prev s) (moves_all cfg)"
proof -
  let ?ms = "moves_all cfg"
  from assms(1) have n: "steps_not_on_same_face_and_layer cfg = snd (build_caches sfl ?ms)"
    by (auto simp: init_def Let_def split: option.splits)
  have "distinct (map Some ?ms @ [None])"
    using assms(2) by (auto simp: distinct_map)
  then have "snd (build_caches sfl ?ms) prev =
      (if prev \<in> set (map Some ?ms @ [None]) \<and> filter (\<lambda>s. \<not> sfl prev s) ?ms \<noteq> []
       then Some (filter (\<lambda>s. \<not> sfl prev s) ?ms) else Map.empty prev)"
    unfolding build_caches_def by (rule fold_fold_cache_pair_nots) simp
  with assms(3) n show ?thesis by (simp split: if_splits)
qed

lemma best_loop_recorded:
  "best_loop al m l = Some best \<Longrightarrow> best \<in> snd ` set al \<or> m = Some best"
  by (induction al m l rule: best_loop.induct) (auto split: option.splits if_splits)

lemma get_best_recorded: "get_best_ida_solution st = Some best \<Longrightarrow> best \<in> recorded st"
  using best_loop_recorded [of "ida_nodes st" None None best]
  by (simp add: get_best_ida_solution_def recorded_def)

lemma search_no_consecutive:
  assumes u: "candidates_unrelated sfl ms (steps_not_on_same_face_and_layer cfg)"
    and run: "ida_search cfg 0 [] T None nodes st = Inr (r, st')"
    and inv: "\<forall>sol \<in> recorded st. no_consecutive_same_face sfl sol"
  shows "\<forall>sol \<in> recorded st'. no_consecutive_same_face sfl sol"
proof (rule recorded_invariant(1) [where
      J = "\<lambda>c steps prev. no_consecutive_same_face sfl steps \<and> (steps \<noteq> [] \<longrightarrow> prev = Some (last steps))"
      and P = "no_consecutive_same_face sfl", OF _ _ run _ inv])
  fix c steps prev next_steps step
  assume "no_consecutive_same_face sfl steps \<and> (steps \<noteq> [] \<longrightarrow> prev = Some (last steps))"
    and "steps_not_on_same_face_and_layer cfg prev = Some next_steps"
    and "step \<in> set next_steps"
  with u show "no_consecutive_same_face sfl (steps @ [step]) \<and>
      (steps @ [step] \<noteq> [] \<longrightarrow> Some step = Some (last (steps @ [step])))"
    by (auto simp: no_consecutive_snoc candidates_unrelated_def)
qed simp_all

lemma thresholds_no_consecutive:
  assumes u: "candidates_unrelated sfl ms (steps_not_on_same_face_and_layer cfg)"
  shows "ida_thresholds cfg ts st = Inr (Some best) \<Longrightarrow> no_consecutive_same_face sfl best"
proof (induction ts arbitrary: st)
  case Nil
  then show ?case by simp
next
  case (Cons T ts)
  let ?st1 = "st\<lparr>ida_count := 0, explored := Map.empty, ida_nodes := []\<rparr>"
  from Cons.prems obtain r st2 where
    run: "ida_search cfg 0 [] T None (get_ida_graph_nodes ?st1) ?st1 = Inr (r, st2)"
    by (cases "ida_search cfg 0 [] T None (get_ida_graph_nodes ?st1) ?st1") (auto simp: Let_def)
  have inv: "\<forall>sol \<in> recorded st2. no_consecutive_same_face sfl sol"
    by (rule search_no_consecutive [OF u run]) (simp add: recorded_def)
  show ?case
  proof (cases "get_best_ida_solution st2")
    case None
    with Cons.prems run have "ida_thresholds cfg ts st2 = Inr (Some best)" by (simp add: Let_def)
    then show ?thesis by (rule Cons.IH)
  next
    case (Some b)
    show ?thesis
    proof (cases "b = []")
      case True
      with Some Cons.prems run have "ida_thresholds cfg ts st2 = Inr (Some best)"
        by (simp add: Let_def)
      then show ?thesis by (rule Cons.IH)
    next
      case False
      with Some Cons.prems run have "best = b" by (simp add: Let_def)
      with Some inv get_best_recorded show ?thesis by blast
    qed
  qed
qed

text \<open>
  Claim C7. For a table built by the constructor: every move sequence recorded by a
  search from the root call contains no two consecutive moves that are same-face-layer
  related, and so does every solution the threshold loop hands to the driver; the
  candidates after \<open>prev_step\<close> are moves of the move list not related to it, and, the
  move list having no duplicates, exactly those, in the order of the move list.
\<close>

theorem solutions_without_consecutive_same_face:
  assumes "init sfl moves_all_arg moves_illegal legal_moves = Inr cfg"
  shows "(\<forall>T nodes st r st'.
            ida_search cfg 0 [] T None nodes st = Inr (r, st') \<and> ida_nodes st = [] \<longrightarrow>
            (\<forall>sol \<in> recorded st'. no_consecutive_same_face sfl sol))
       \<and> (\<forall>ts st best.
            ida_thresholds cfg ts st = Inr (Some best) \<longrightarrow> no_consecutive_same_face sfl best)
       \<and> (\<forall>prev next_steps.
            steps_not_on_same_face_and_layer cfg prev = Some next_steps \<longrightarrow>
            (\<forall>s \<in> set next_steps. \<not> sfl prev s \<and> s \<in> set (moves_all cfg))
            \<and> (distinct (moves_all cfg) \<longrightarrow>
                 next_steps = filter (\<lambda>s. \<not> sfl prev s) (moves_all cfg)))"
proof (intro conjI allI impI)
  note u = init_unrelated [OF assms]
  fix T nodes st r st'
  assume h: "ida_search cfg 0 [] T None nodes st = Inr (r, st') \<and> ida_nodes st = []"
  then have "\<forall>sol \<in> recorded st. no_consecutive_same_face sfl sol"
    by (simp add: recorded_def)
  with h show "\<forall>sol \<in> recorded st'. no_consecutive_same_face sfl sol"
    using search_no_consecutive [OF u] by blast
next
  fix ts st best
  assume "ida_thresholds cfg ts st = Inr (Some best)"
  then show "no_consecutive_same_face sfl best"
    by (rule thresholds_no_consecutive [OF init_unrelated [OF assms]])
next
  fix prev next_steps
  assume "steps_not_on_same_face_and_layer cfg prev = Some next_steps"
  then show "\<forall>s \<in> set next_steps. \<not> sfl prev s \<and> s \<in> set (moves_all cfg)"
    using init_unrelated [OF assms] by (auto simp: candidates_unrelated_def)
next
  fix prev next_steps
  assume "steps_not_on_same_face_and_layer cfg prev = Some next_steps"
    and "distinct (moves_all cfg)"
  then show "next_steps = filter (\<lambda>s. \<not> sfl prev s) (moves_all cfg)"
    using init_candidates_in_order [OF assms] by blast
qed

theorem solutions_without_consecutive_same_face_witness:
  "ida_thresholds three_move_cfg [3, 4] path_search = Inr (Some [''U'', ''R'', ''U''])
   \<and> no_consecutive_same_face same_face [''U'', ''R'', ''U'']
   \<and> steps_not_on_same_face_and_layer three_move_cfg (Some ''R'') =
       Some (filter (\<lambda>s. \<not> same_face (Some ''R'') s) [''U'', ''U2'', ''R''])"
proof -
  note t = solutions_without_consecutive_same_face [OF three_move_init]
  have "no_consecutive_same_face same_face [''U'', ''R'', ''U'']"
    using t path_thresholds by blast
  moreover have "steps_not_on_same_face_and_layer three_move_cfg (Some ''R'') =
       Some (filter (\<lambda>s. \<not> same_face (Some ''R'') s) [''U'', ''U2'', ''R''])"
    using t three_move_cfg_simps(2,9) by simp
  ultimately show ?thesis using path_thresholds by simp
qed

section \<open>Properties of the driver\<close>

text \<open>The heuristic reads only the tables.\<close>

lemma ida_heuristic_cong:
  "prune_tables st' = prune_tables st \<Longrightarrow> ida_heuristic cfg st' = ida_heuristic cfg st"
  by (simp add: ida_heuristic_def)

text \<open>
  At a root of cost 0 no threshold yields a solution the loop accepts: at a threshold
  \<open>\<le> 0\<close> the root is cut off, and above it the empty move list is recorded, which
  \<open>if best_solution:\<close> takes for no solution.
\<close>

lemma thresholds_at_goal_root:
  assumes "ida_heuristic cfg st = Inr (lt, 0)"
  shows "ida_thresholds cfg ts st = Inr None"
  using assms
proof (induction ts arbitrary: st)
  case Nil
  then show ?case by simp
next
  case (Cons T ts)
  let ?st1 = "st\<lparr>ida_count := 0, explored := Map.empty, ida_nodes := []\<rparr>"
  have h1: "ida_heuristic cfg ?st1 = Inr (lt, 0)" using Cons.prems by simp
  show ?case
  proof (cases "0 \<ge> T")
    case True
    let ?st2 = "?st1\<lparr>ida_count := ida_count ?st1 + 1\<rparr>"
    have s: "ida_search cfg 0 [] T None (get_ida_graph_nodes ?st1) ?st1 = Inr ((0, False), ?st2)"
      using True by (simp add: ida_search_unfold [OF h1])
    have "ida_heuristic cfg ?st2 = Inr (lt, 0)" using Cons.prems by simp
    then have "ida_thresholds cfg ts ?st2 = Inr None" by (rule Cons.IH)
    with s show ?thesis by (simp add: Let_def get_best_ida_solution_def)
  next
    case False
    let ?st2 = "?st1\<lparr>ida_count := ida_count ?st1 + 1,
                  ida_nodes := AList.update lt [] (ida_nodes ?st1)\<rparr>"
    have s: "ida_search cfg 0 [] T None (get_ida_graph_nodes ?st1) ?st1 = Inr ((0, True), ?st2)"
      using False by (simp add: ida_search_unfold [OF h1])
    have "ida_heuristic cfg ?st2 = Inr (lt, 0)" using Cons.prems by simp
    then have "ida_thresholds cfg ts ?st2 = Inr None" by (rule Cons.IH)
    with s show ?thesis by (simp add: Let_def get_best_ida_solution_def)
  qed
qed

lemma solve_at_goal_root:
  assumes "recolor ops stg c = (None, c1)"
    and "\<not> avoid_oll stg"
    and "ida_heuristic cfg (st\<lparr>prune_tables := init_ida_graph_nodes (state c1) (prune_tables st)\<rparr>)
           = Inr (lt, 0)"
  shows "solve ops cfg stg min_ida_threshold max_ida_threshold c st = (Inl NoIDASolution, c1)"
  using assms thresholds_at_goal_root [OF assms(3)]
  by (simp add: solve_def Let_def)

text \<open>While every threshold is at most the root's cost, every iteration is cut off at the root.\<close>

lemma thresholds_all_cutoff:
  assumes "ida_heuristic cfg st = Inr (lt, h)" and "\<forall>T \<in> set ts. T \<le> int h"
  shows "ida_thresholds cfg ts st = Inr None"
  using assms
proof (induction ts arbitrary: st)
  case Nil
  then show ?case by simp
next
  case (Cons T ts)
  let ?st1 = "st\<lparr>ida_count := 0, explored := Map.empty, ida_nodes := []\<rparr>"
  let ?st2 = "?st1\<lparr>ida_count := ida_count ?st1 + 1\<rparr>"
  have h1: "ida_heuristic cfg ?st1 = Inr (lt, h)" using Cons.prems by simp
  have s: "ida_search cfg 0 [] T None (get_ida_graph_nodes ?st1) ?st1 = Inr ((int h, False), ?st2)"
    using Cons.prems(2) by (simp add: ida_search_unfold [OF h1])
  have "ida_heuristic cfg ?st2 = Inr (lt, h)" using Cons.prems by simp
  then have "ida_thresholds cfg ts ?st2 = Inr None" using Cons.prems(2) by (intro Cons.IH) simp_all
  with s show ?case by (simp add: Let_def get_best_ida_solution_def)
qed

text \<open>
  The three ways out of \<open>solve\<close> once the search has started: the range is exhausted,
  a solution is selected, or an exception passes through.
\<close>

lemma cube_restore: "c1\<lparr>state := state c, solution := solution c\<rparr> = (c :: cube)"
  by simp

lemma solve_applies_selected:
  assumes "recolor ops stg c = (None, c1)"
    and "\<not> avoid_oll stg"
    and "ida_heuristic cfg (st\<lparr>prune_tables := init_ida_graph_nodes (state c1) (prune_tables st)\<rparr>)
           = Inr (lt, h)"
    and "mn = (case min_ida_threshold of None \<Rightarrow> int h | Some m \<Rightarrow> m)"
    and "mn < max_ida_threshold + 1"
    and "ida_thresholds cfg [mn..max_ida_threshold]
           (st\<lparr>prune_tables := init_ida_graph_nodes (state c1) (prune_tables st)\<rparr>)
           = Inr (Some best)"
  shows "solve ops cfg stg min_ida_threshold max_ida_threshold c st =
           (Inr True, fold (rotate ops) best c)"
  using assms by (simp add: solve_def Let_def cube_restore)

lemma solve_raises_leaves_recolored:
  assumes "solve ops cfg stg min_ida_threshold max_ida_threshold c st = (Inl e, c')"
  shows "c' = snd (recolor ops stg c)"
  using assms
  by (auto simp: solve_def Let_def split: prod.splits option.splits sum.splits if_splits)

text \<open>\<open>get_best_ida_solution\<close> returns a recorded move sequence of minimum length.\<close>

lemma best_loop_minimal:
  assumes "best_loop al m l = Some best" and "l = map_option length m"
  shows "(\<forall>sol \<in> snd ` set al. length best \<le> length sol)
       \<and> (\<forall>x. m = Some x \<longrightarrow> length best \<le> length x)"
  using assms
proof (induction al arbitrary: m l)
  case Nil
  then show ?case by simp
next
  case (Cons a al)
  obtain k steps where a: "a = (k, steps)" by (cases a)
  show ?case
  proof (cases m)
    case None
    with Cons.prems a have "best_loop al (Some steps) (Some (length steps)) = Some best"
      by simp
    from Cons.IH [OF this] have "(\<forall>sol \<in> snd ` set al. length best \<le> length sol)
        \<and> length best \<le> length steps" by simp
    with None a show ?thesis by simp
  next
    case (Some x)
    with Cons.prems have l: "l = Some (length x)" by simp
    show ?thesis
    proof (cases "length steps < length x")
      case True
      with Cons.prems(1) a l have "best_loop al (Some steps) (Some (length steps)) = Some best"
        by simp
      from Cons.IH [OF this] have "(\<forall>sol \<in> snd ` set al. length best \<le> length sol)
          \<and> length best \<le> length steps" by simp
      with True Some a show ?thesis by simp
    next
      case False
      with Cons.prems(1) a l have "best_loop al m l = Some best" by simp
      from Cons.IH [OF this Cons.prems(2)] Some
      have "(\<forall>sol \<in> snd ` set al. length best \<le> length sol) \<and> length best \<le> length x"
        by simp
      with False Some a show ?thesis by simp
    qed
  qed
qed

lemma get_best_minimal:
  assumes "get_best_ida_solution st = Some best"
  shows "\<forall>sol \<in> recorded st. length best \<le> length sol"
  using best_loop_minimal [of "ida_nodes st" None None best] assms
  by (simp add: get_best_ida_solution_def recorded_def)

lemma small_cube_recolor_U:
  "recolor log_ops recolor_U small_cube = (None, \<lparr> state = [''x'', ''F''], solution = [''R''] \<rparr>)"
  by (simp add: recolor_def recolor_U_def init_staging_def small_cube_def Let_def)

text \<open>
  Claim C1 asks that a root node with \<open>cost_to_goal = 0\<close> makes \<open>solve\<close> return success
  with a zero-length solution. The code does not: on a puzzle that is already in the
  table, with the default arguments (thresholds 0 to 99), \<open>solve\<close> raises
  \<open>NoIDASolution\<close>. No node is expanded, and the puzzle is left as it was.
\<close>

theorem solve_of_solved_puzzle_raises:
  "solve log_ops one_move_cfg init_staging None 99 small_cube solved_table =
     (Inl NoIDASolution, small_cube)"
proof (rule solve_at_goal_root [OF small_cube_no_recolor])
  show "\<not> avoid_oll init_staging" by (simp add: init_staging_def)
  show "ida_heuristic one_move_cfg
          (solved_table\<lparr>prune_tables :=
             init_ida_graph_nodes (state small_cube) (prune_tables solved_table)\<rparr>) = Inr ([0], 0)"
    by (simp add: ida_heuristic_def one_move_cfg_simps solved_table_def init_ida_graph_nodes_def
        Let_def)
qed

text \<open>
  Claim C8 asks that whenever a solution was recorded in an iteration, the driver selects
  a shortest one, resets the puzzle to the snapshot taken before \<open>recolor\<close> and applies
  the moves. When the recorded solution is the empty move list, the code does not: at
  threshold 1 the search on a puzzle already in the table records the empty list and
  \<open>get_best_ida_solution\<close> returns it, but the loop goes on as if nothing had been
  found, and \<open>solve\<close> ends with \<open>NoIDASolution\<close> and the recolored state.
\<close>

theorem empty_solution_recorded_not_applied:
  "ida_search one_move_cfg 0 [] 1 None [0] solved_table =
     Inr ((0, True), solved_table\<lparr>ida_count := 1, ida_nodes := [([0], [])]\<rparr>)
   \<and> get_best_ida_solution (solved_table\<lparr>ida_count := 1, ida_nodes := [([0], [])]\<rparr>) = Some []
   \<and> ida_thresholds one_move_cfg [1] solved_table = Inr None
   \<and> solve log_ops one_move_cfg recolor_U (Some 1) 1 small_cube solved_table =
       (Inl NoIDASolution, \<lparr> state = [''x'', ''F''], solution = [''R''] \<rparr>)"
proof -
  have a: "ida_search one_move_cfg 0 [] 1 None [0] solved_table =
     Inr ((0, True), solved_table\<lparr>ida_count := 1, ida_nodes := [([0], [])]\<rparr>)"
    by (subst ida_search_unfold [OF ida_heuristic_solved_table]) (simp add: solved_table_def)
  have b: "get_best_ida_solution (solved_table\<lparr>ida_count := 1, ida_nodes := [([0], [])]\<rparr>) = Some []"
    by (simp add: get_best_ida_solution_def)
  have c: "ida_thresholds one_move_cfg [1] solved_table = Inr None"
    by (rule thresholds_at_goal_root [OF ida_heuristic_solved_table])
  have "ida_heuristic one_move_cfg
          (solved_table\<lparr>prune_tables :=
             init_ida_graph_nodes (state \<lparr> state = [''x'', ''F''], solution = [''R''] \<rparr>)
               (prune_tables solved_table)\<rparr>) = Inr ([0], 0)"
    by (simp add: ida_heuristic_def one_move_cfg_simps solved_table_def init_ida_graph_nodes_def
        Let_def)
  then have d: "solve log_ops one_move_cfg recolor_U (Some 1) 1 small_cube solved_table =
       (Inl NoIDASolution, \<lparr> state = [''x'', ''F''], solution = [''R''] \<rparr>)"
    by (rule solve_at_goal_root [OF small_cube_recolor_U, rotated])
      (simp add: recolor_U_def init_staging_def)
  from a b c d show ?thesis by simp
qed

text \<open>
  Claim C2 asks that, when every threshold is exhausted, the puzzle is restored to the
  values it had before \<open>solve\<close> was called, before any recolor. The code restores
  \<open>original_state\<close>, the snapshot taken after \<open>recolor\<close>: with a goal five moves away and
  thresholds 0 to 2, \<open>solve\<close> raises \<open>NoIDASolution\<close> and leaves position 0 recolored
  from \<open>U\<close> to \<open>x\<close>.
\<close>

theorem failed_search_leaves_recolored_state:
  "state small_cube = [''U'', ''F'']
   \<and> solve log_ops one_move_cfg recolor_U (Some 0) 2 small_cube far_table =
       (Inl NoIDASolution, \<lparr> state = [''x'', ''F''], solution = [''R''] \<rparr>)"
proof -
  let ?st1 = "far_table\<lparr>prune_tables :=
      init_ida_graph_nodes (state \<lparr> state = [''x'', ''F''], solution = [''R''] \<rparr>)
        (prune_tables far_table)\<rparr>"
  have h: "ida_heuristic one_move_cfg ?st1 = Inr ([0], 5)"
    by (simp add: ida_heuristic_def one_move_cfg_simps far_table_def init_ida_graph_nodes_def
        Let_def)
  have t: "ida_thresholds one_move_cfg [(case Some 0 of None \<Rightarrow> int 5 | Some m \<Rightarrow> m)..2] ?st1
             = Inr None"
    by (rule thresholds_all_cutoff [OF h]) simp
  have "solve log_ops one_move_cfg recolor_U (Some 0) 2 small_cube far_table =
       (Inl NoIDASolution, \<lparr> state = [''x'', ''F''], solution = [''R''] \<rparr>)"
    by (rule solve_exhausted [OF small_cube_recolor_U _ h t])
      (simp add: recolor_U_def init_staging_def)
  then show ?thesis by (simp add: small_cube_def)
qed

end
